theory Spec2Isabelle
  imports Complex_Main "HOL-Library.Word"
begin

section \<open>Mask Regional Prompter: the core of \<^verbatim>\<open>scripts/rp_core.py\<close>\<close>

text \<open>
  A shallow embedding of the colour allocator, the region codec, mask ingestion, the
  attention hook and the hook manager of \<^verbatim>\<open>rp_core.py\<close>.

  Conventions. Python's unbounded integers are \<open>int\<close>; an \<^verbatim>\<open>np.uint8\<close> channel is an
  \<open>8 word\<close>; Python's \<^verbatim>\<open>None\<close> is \<open>None\<close>; an exception is a value of \<open>py_error\<close> on the
  left of a sum. The module's globals \<^verbatim>\<open>COLREG\<close>, \<^verbatim>\<open>REGUSE\<close> and \<^verbatim>\<open>VARIANT\<close> are the fields
  of a record that every function reading or writing them takes and returns.

  Floating point. The hues the allocator computes are dyadic rationals with at most a few
  dozen bits, and every operation the source applies to them is exact in binary64, so
  they are modelled as \<open>rat\<close>. The expressions \<^verbatim>\<open>np.ceil(np.log2(k))\<close> and
  \<^verbatim>\<open>math.ceil(math.log2(math.sqrt(a / b)))\<close> are read over the real numbers.
\<close>

subsection \<open>Constants and errors\<close>

type_synonym uint8 = "8 word"

text \<open>One row of an \<^verbatim>\<open>(n, 3)\<close> array of \<^verbatim>\<open>uint8\<close>, or one pixel of an \<^verbatim>\<open>(H, W, 3)\<close> image.\<close>
type_synonym colour = "uint8 \<times> uint8 \<times> uint8"

text \<open>An \<^verbatim>\<open>(H, W, 3)\<close> array: the list of its rows.\<close>
type_synonym image = "colour list list"

datatype py_error = ZeroDivisionError | ValueError | IndexError | TypeError | AttributeError

definition MAXCOLREG :: int where "MAXCOLREG = 359"
definition CBLACK :: int where "CBLACK = 255"
definition TOKENSCON :: nat where "TOKENSCON = 77"

subsection \<open>The colour allocator: \<^verbatim>\<open>deterministic_colours\<close>\<close>

text \<open>
  \<^verbatim>\<open>np.ceil(np.log2(k))\<close> for an integer \<open>k \<ge> 1\<close>: the least \<open>c\<close> with \<open>k \<le> 2 ^ c\<close>
  (lemma \<open>ceil_log2_real\<close> below relates it to the real logarithm).
\<close>
fun ceil_log2 :: "nat \<Rightarrow> nat" where
  "ceil_log2 k = (if k \<le> 1 then 0 else Suc (ceil_log2 ((k + 1) div 2)))"

declare ceil_log2.simps [simp del]

text \<open>\<^verbatim>\<open>2 ** c\<close> for an integral float \<open>c\<close>, which is \<open>-1\<close> in one place of the source.\<close>
definition pow2 :: "int \<Rightarrow> rat" where
  "pow2 c = (if 0 \<le> c then 2 ^ nat c else 1 / 2 ^ nat (- c))"

text \<open>Python's \<^verbatim>\<open>x % y\<close> on floats, for \<open>y > 0\<close>.\<close>
definition py_fmod :: "rat \<Rightarrow> rat \<Rightarrow> rat" where
  "py_fmod x y = x - y * of_int \<lfloor>x / y\<rfloor>"

text \<open>The loop variables \<^verbatim>\<open>pcyc\<close>, \<^verbatim>\<open>cval\<close>, \<^verbatim>\<open>dlt\<close>.\<close>
record hue_state =
  pcyc :: int
  cval :: rat
  dlt :: rat

text \<open>Lines 74 to 76: the values before the loop when nothing is resumed.\<close>
definition fresh_state :: hue_state where
  "fresh_state = \<lparr>pcyc = - 1, cval = 0, dlt = 0\<rparr>"

text \<open>Lines 84 to 87: the values before the loop when \<open>st > 0\<close> colours exist already.\<close>
definition resume_state :: "nat \<Rightarrow> hue_state" where
  "resume_state st =
     (let pc = int (ceil_log2 st);
          d = 1 / pow2 pc;
          cv = d + 2 * d * (py_fmod (of_nat st) (pow2 (pc - 1)) - 1)
      in \<lparr>pcyc = pc, cval = cv, dlt = d\<rparr>)"

text \<open>One iteration of the loop of lines 90 to 101, for index \<open>i\<close>.\<close>
definition hue_step :: "hue_state \<Rightarrow> nat \<Rightarrow> hue_state" where
  "hue_step s i =
     (let ccyc = int (ceil_log2 (i + 1)) in
      if ccyc = 0 then s\<lparr>cval := 0, pcyc := ccyc\<rparr>
      else if pcyc s \<noteq> ccyc then s\<lparr>dlt := 1 / pow2 ccyc, cval := 1 / pow2 ccyc, pcyc := ccyc\<rparr>
      else s\<lparr>cval := cval s + 2 * dlt s\<rparr>)"

text \<open>The loop over \<^verbatim>\<open>range(st, n)\<close>, collecting \<^verbatim>\<open>lhsv\<close>.\<close>
fun hue_loop :: "hue_state \<Rightarrow> nat list \<Rightarrow> rat list" where
  "hue_loop s [] = []"
| "hue_loop s (i # is) = (let s' = hue_step s i in cval s' # hue_loop s' is)"

text \<open>
  \<^verbatim>\<open>colorsys.hsv_to_rgb\<close> of the Python standard library, which the source calls on
  \<open>(v, 0.5, 0.5)\<close>; \<^verbatim>\<open>int()\<close> truncates, and the hues here are never negative.
\<close>
definition hsv_to_rgb :: "rat \<Rightarrow> rat \<Rightarrow> rat \<Rightarrow> rat \<times> rat \<times> rat" where
  "hsv_to_rgb h s v =
     (if s = 0 then (v, v, v)
      else let i = \<lfloor>h * 6\<rfloor>;
               f = h * 6 - of_int i;
               p = v * (1 - s);
               q = v * (1 - s * f);
               t = v * (1 - s * (1 - f));
               i6 = i mod 6
           in if i6 = 0 then (v, t, p)
              else if i6 = 1 then (q, v, p)
              else if i6 = 2 then (p, v, t)
              else if i6 = 3 then (p, q, v)
              else if i6 = 4 then (t, p, v)
              else (v, p, q))"

text \<open>Line 105: \<^verbatim>\<open>(x * (CBLACK + 1)).astype(np.uint8)\<close>, truncation and then the low byte.\<close>
definition to_uint8 :: "rat \<Rightarrow> uint8" where
  "to_uint8 x = word_of_int \<lfloor>x * of_int (CBLACK + 1)\<rfloor>"

definition hue_colour :: "rat \<Rightarrow> colour" where
  "hue_colour h = (case hsv_to_rgb h (1 / 2) (1 / 2) of (r, g, b) \<Rightarrow> (to_uint8 r, to_uint8 g, to_uint8 b))"

text \<open>
  \<^verbatim>\<open>deterministic_colours(n, lcol)\<close>. The result is \<open>None\<close> where the source returns
  \<^verbatim>\<open>None\<close>.
\<close>
definition deterministic_colours :: "int \<Rightarrow> colour list option \<Rightarrow> colour list option" where
  "deterministic_colours n lcol =
     (if n \<le> 0 then None
      else case lcol of
        None \<Rightarrow> Some (map hue_colour (hue_loop fresh_state [0 ..< nat n]))
      | Some l \<Rightarrow>
          if n \<le> int (length l) then Some l
          else let st = length l;
                   s0 = (if st > 0 then resume_state st else fresh_state)
               in Some (l @ map hue_colour (hue_loop s0 [st ..< nat n])))"



subsection \<open>Closed forms used in the proofs about the allocator\<close>

text \<open>The hue of index \<open>i\<close> in closed form: \<open>0\<close> for \<open>i = 0\<close>, and otherwise the odd multiple
  \<open>2 * (i - 2 ^ (k - 1)) + 1\<close> of \<open>1 / 2 ^ k\<close>, where \<open>k = ceil_log2 (i + 1)\<close>.\<close>
definition hue_of :: "nat \<Rightarrow> rat" where
  "hue_of i = (if i = 0 then 0
     else of_nat (2 * (i - 2 ^ (ceil_log2 (Suc i) - 1)) + 1) / 2 ^ ceil_log2 (Suc i))"

text \<open>What the loop variables hold on entry to iteration \<open>i \<ge> 1\<close>. The values of
  \<^verbatim>\<open>cval\<close> and \<^verbatim>\<open>dlt\<close> matter only when iteration \<open>i\<close> stays in the cycle of \<open>i - 1\<close>.\<close>
definition hue_inv :: "hue_state \<Rightarrow> nat \<Rightarrow> bool" where
  "hue_inv s i \<longleftrightarrow> pcyc s = int (ceil_log2 i) \<and>
     (ceil_log2 (Suc i) = ceil_log2 i \<longrightarrow> cval s = hue_of (i - 1) \<and> dlt s = 1 / 2 ^ ceil_log2 i)"

definition colour_at :: "nat \<Rightarrow> colour" where
  "colour_at i = hue_colour (hue_of i)"


subsection \<open>Module state\<close>

text \<open>
  \<^verbatim>\<open>REGUSE\<close> is a \<^verbatim>\<open>dict\<close> from region id to the colour in use; Python keeps the order of
  insertion, which is the order of \<^verbatim>\<open>list(REGUSE.values())\<close>. \<^verbatim>\<open>VARIANT\<close> is \<open>0\<close> or \<open>1\<close>: it
  starts at \<open>0\<close> and is only ever assigned \<open>0\<close> or \<^verbatim>\<open>1 - VARIANT\<close>.
\<close>
record globals =
  COLREG :: "colour list option"
  REGUSE :: "(int \<times> colour) list"
  VARIANT :: nat

text \<open>\<^verbatim>\<open>d[k] = v\<close> on a \<^verbatim>\<open>dict\<close>: an existing key keeps its place.\<close>
fun dict_set :: "('k \<times> 'v) list \<Rightarrow> 'k \<Rightarrow> 'v \<Rightarrow> ('k \<times> 'v) list" where
  "dict_set [] k v = [(k, v)]"
| "dict_set ((k', v') # d) k v = (if k' = k then (k, v) # d else (k', v') # dict_set d k v)"

definition dict_values :: "('k \<times> 'v) list \<Rightarrow> 'v list" where
  "dict_values d = map snd d"

subsection \<open>The region codec: \<^verbatim>\<open>create_canvas\<close>, \<^verbatim>\<open>detect_polygons\<close>, \<^verbatim>\<open>detect_mask\<close>\<close>







text \<open>The first argument of \<^verbatim>\<open>detect_mask\<close>: an array, or a dictionary read with \<^verbatim>\<open>.get("image")\<close>.\<close>
datatype canvas_arg = Array image | Dict "image option"

definition same_colour :: "colour \<Rightarrow> colour \<Rightarrow> bool" where
  "same_colour px col = (case (px, col) of ((r, g, b), (cr, cg, cb)) \<Rightarrow> r = cr \<and> g = cg \<and> b = cb)"

text \<open>
  Line 268, \<^verbatim>\<open>(~(img == color_arr)).all(-1).all(-1)\<close>, at one pixel: the comparison has shape
  \<open>(H, W, 3, K)\<close>, it is negated element by element, and then reduced with \<^verbatim>\<open>all\<close> over the
  \<open>K\<close> colours and over the three channels.
\<close>
definition differs_everywhere :: "colour list \<Rightarrow> colour \<Rightarrow> bool" where
  "differs_everywhere cols px =
     (case px of (r, g, b) \<Rightarrow>
        list_all (\<lambda>(cr, cg, cb). r \<noteq> cr) cols
      \<and> list_all (\<lambda>(cr, cg, cb). g \<noteq> cg) cols
      \<and> list_all (\<lambda>(cr, cg, cb). b \<noteq> cb) cols)"

text \<open>
  \<^verbatim>\<open>detect_mask(img, num, mult)\<close>: the mask (\<open>None\<close> where the source returns \<^verbatim>\<open>None\<close>) and
  the globals. The colour \<^verbatim>\<open>deterministic_colours(int(num) + 1)[-1]\<close> is the head of the
  reversed sequence.
\<close>
definition detect_mask ::
  "canvas_arg option \<Rightarrow> int \<Rightarrow> int \<Rightarrow> globals \<Rightarrow> py_error + (int list list option \<times> globals)" where
  "detect_mask img num mult g =
     (case (case img of None \<Rightarrow> None | Some (Array a) \<Rightarrow> Some a | Some (Dict d) \<Rightarrow> d) of
        None \<Rightarrow> Inr (None, g)
      | Some a \<Rightarrow>
          if num < 0 then
            (let color_arr = dict_values (REGUSE g) in
             if length color_arr = 0 then Inr (Some (map (map (\<lambda>px. 1 * mult)) a), g)
             else Inr (Some (map (map (\<lambda>px. (if differs_everywhere color_arr px then 1 else 0) * mult)) a), g))
          else
            (case deterministic_colours (num + 1) None of
               None \<Rightarrow> Inl TypeError
             | Some cs \<Rightarrow>
                 (case rev cs of
                    [] \<Rightarrow> Inl IndexError
                  | color_arr # _ \<Rightarrow>
                      let msk = map (map (\<lambda>px. (if same_colour px color_arr then 1 else 0) * mult)) a
                      in Inr (Some msk,
                              if sum_list (concat msk) > 0 \<and> num \<ge> 0
                              then g\<lparr>REGUSE := dict_set (REGUSE g) num color_arr\<rparr> else g))))"

subsection \<open>Mask ingestion: \<^verbatim>\<open>MaskRegionProcessor.setup_masks\<close>\<close>

text \<open>
  A region mask: an \<open>(H, W)\<close> array whose entries are \<open>0\<close> and \<open>1\<close>, and small sums of them
  in the running union. The source holds them in \<^verbatim>\<open>float16\<close>, which represents these values
  exactly up to \<open>2048\<close>; a larger sum is clipped to \<open>1\<close> all the same.
\<close>
type_synonym region_mask = "int list list"

record processor =
  height :: int
  width :: int
  batch_size :: int
  is_forge :: bool
  is_reforge :: bool
  regmasks :: "region_mask list"
  regbase :: "region_mask option"
  hooked :: bool
  active :: bool

text \<open>What \<^verbatim>\<open>__init__\<close> sets.\<close>
definition new_processor :: "int \<Rightarrow> int \<Rightarrow> int \<Rightarrow> bool \<Rightarrow> bool \<Rightarrow> processor" where
  "new_processor h w bs forge reforge =
     \<lparr>height = h, width = w, batch_size = bs, is_forge = forge, is_reforge = reforge,
      regmasks = [], regbase = None, hooked = False, active = False\<rparr>"

text \<open>The mask image: an \<open>(H, W)\<close> array, which line 360 stacks three times, or an \<open>(H, W, 3)\<close> one.\<close>
datatype mask_image = Grey "uint8 list list" | RGB image

definition as_rgb :: "mask_image \<Rightarrow> image" where
  "as_rgb mi = (case mi of Grey a \<Rightarrow> map (map (\<lambda>v. (v, v, v))) a | RGB a \<Rightarrow> a)"

text \<open>
  Line 371 at one pixel: the three differences are taken in \<^verbatim>\<open>int16\<close>, where the difference
  of two bytes cannot wrap.
\<close>
definition colour_match :: "colour \<Rightarrow> colour \<Rightarrow> bool" where
  "colour_match col px =
     (case (px, col) of ((r, g, b), (cr, cg, cb)) \<Rightarrow>
        \<bar>uint r - uint cr\<bar> < 10 \<and> \<bar>uint g - uint cg\<bar> < 10 \<and> \<bar>uint b - uint cb\<bar> < 10)"

definition np_any :: "bool list list \<Rightarrow> bool" where
  "np_any m = list_ex (list_ex (\<lambda>b. b)) m"

text \<open>The loop of lines 368 to 375 over \<^verbatim>\<open>range(layer_count)\<close>: \<^verbatim>\<open>detected_regions\<close> and \<^verbatim>\<open>REGUSE\<close>.\<close>
fun detect_regions ::
  "image \<Rightarrow> colour list \<Rightarrow> nat list \<Rightarrow> (nat \<times> bool list list) list \<times> (int \<times> colour) list
     \<Rightarrow> py_error + ((nat \<times> bool list list) list \<times> (int \<times> colour) list)" where
  "detect_regions img cr [] (detected, ru) = Inr (detected, ru)"
| "detect_regions img cr (c # cs) (detected, ru) =
     (if c < length cr then
        (let color = cr ! c;
             color_match = map (map (colour_match color)) img
         in if np_any color_match
            then detect_regions img cr cs (detected @ [(c, color_match)], dict_set ru (int c) color)
            else detect_regions img cr cs (detected, ru))
      else Inl IndexError)"

definition astype_float :: "bool list list \<Rightarrow> region_mask" where
  "astype_float m = map (map (\<lambda>b. if b then 1 else 0)) m"

definition mask_any :: "region_mask \<Rightarrow> bool" where
  "mask_any m = list_ex (list_ex (\<lambda>v. v \<noteq> 0)) m"

definition zeros_like :: "region_mask \<Rightarrow> region_mask" where
  "zeros_like m = map (map (\<lambda>v. 0)) m"

definition mask_add :: "region_mask \<Rightarrow> region_mask \<Rightarrow> region_mask" where
  "mask_add a b = map (\<lambda>(ra, rb). map (\<lambda>(x, y). x + y) (zip ra rb)) (zip a b)"

text \<open>The loop of lines 377 to 385: the running union \<^verbatim>\<open>tm\<close> and \<^verbatim>\<open>self.regmasks\<close>.\<close>
fun collect_masks ::
  "(nat \<times> bool list list) list \<Rightarrow> region_mask option \<times> region_mask list \<Rightarrow> region_mask option \<times> region_mask list" where
  "collect_masks [] (tm, rm) = (tm, rm)"
| "collect_masks ((c, color_match) # ds) (tm, rm) =
     (let m = astype_float color_match in
      if mask_any m
      then collect_masks ds
             (Some (mask_add (case tm of None \<Rightarrow> zeros_like m | Some t \<Rightarrow> t) m), rm @ [m])
      else collect_masks ds (tm, rm))"

text \<open>Line 388: \<^verbatim>\<open>1 - np.clip(tm, 0, 1)\<close>.\<close>
definition base_mask :: "region_mask \<Rightarrow> region_mask" where
  "base_mask tm = map (map (\<lambda>t. 1 - min (max t 0) 1)) tm"

definition setup_masks ::
  "mask_image option \<Rightarrow> int \<Rightarrow> processor \<Rightarrow> globals \<Rightarrow> py_error + (processor \<times> globals)" where
  "setup_masks mask_image layer_count p g =
     (case mask_image of
        None \<Rightarrow> Inr (p, g)
      | Some mi \<Rightarrow>
          let img = as_rgb mi;
              colreg = deterministic_colours (max (layer_count + 1) MAXCOLREG) (COLREG g)
          in case colreg of
               None \<Rightarrow> Inl TypeError
             | Some cr \<Rightarrow>
                 (case detect_regions img cr [0 ..< nat layer_count] ([], REGUSE g) of
                    Inl e \<Rightarrow> Inl e
                  | Inr (detected, ru) \<Rightarrow>
                      let (tm, rm) = collect_masks detected (None, []);
                          p1 = p\<lparr>regmasks := rm\<rparr>;
                          p2 = (case tm of None \<Rightarrow> p1 | Some t \<Rightarrow> p1\<lparr>regbase := Some (base_mask t)\<rparr>)
                      in Inr (p2\<lparr>active := True\<rparr>, g\<lparr>COLREG := Some cr, REGUSE := ru\<rparr>)))"

subsection \<open>The attention hook: the \<^verbatim>\<open>forward\<close> made by \<^verbatim>\<open>_create_forward_hook\<close>\<close>

text \<open>A tensor: its shape, and its contents, of which the model reads nothing.\<close>
record 'a tensor =
  shape :: "nat list"
  payload :: 'a

text \<open>\<^verbatim>\<open>t.size()[1]\<close> and \<^verbatim>\<open>t.shape[1]\<close>.\<close>
definition size1 :: "'a tensor \<Rightarrow> py_error + nat" where
  "size1 t = (if 1 < length (shape t) then Inr (shape t ! 1) else Inl IndexError)"

text \<open>\<^verbatim>\<open>default(val, d)\<close> for a \<open>d\<close> that is not a function.\<close>
definition default :: "'a option \<Rightarrow> 'a \<Rightarrow> 'a" where
  "default val d = (case val of Some v \<Rightarrow> v | None \<Rightarrow> d)"

text \<open>
  A forward entry point: the input, the optional context, the optional attention mask and
  the keyword arguments, to a tensor or an exception.
\<close>
type_synonym ('a, 'k) forward_fn =
  "'a tensor \<Rightarrow> 'a tensor option \<Rightarrow> 'a tensor option \<Rightarrow> 'k \<Rightarrow> py_error + 'a tensor"

text \<open>
  A submodule of the network as the hook manager and the hook see it: its name in
  \<^verbatim>\<open>named_modules()\<close>, the name of its class, \<^verbatim>\<open>heads\<close>, its \<^verbatim>\<open>forward\<close> attribute, and the
  attribute \<^verbatim>\<open>_original_forward\<close>, which is \<open>None\<close> while the module has no such attribute.
\<close>
record 'f submodule =
  name :: string
  class_name :: string
  heads :: nat
  forward :: 'f
  original_forward :: "'f option"

text \<open>\<^verbatim>\<open>module._original_forward(x, context, mask, **kwargs)\<close>; the argument \<^verbatim>\<open>mask\<close> is
  \<open>amask\<close> here.\<close>
definition call_original ::
  "('a, 'k) forward_fn submodule \<Rightarrow> ('a, 'k) forward_fn" where
  "call_original m x context amask kwargs =
     (case original_forward m of None \<Rightarrow> Inl AttributeError | Some f \<Rightarrow> f x context amask kwargs)"

text \<open>\<^verbatim>\<open>_repeat_div(x, y)\<close>; \<^verbatim>\<open>math.ceil(x / 2)\<close> on an integer is \<open>(x + 1) div 2\<close>.\<close>
function repeat_div :: "int \<Rightarrow> int \<Rightarrow> int" where
  "repeat_div x y = (if y > 0 then repeat_div ((x + 1) div 2) (y - 1) else x)"
  by pat_completeness auto
termination
  by (relation "measure (\<lambda>(x, y). nat y)") auto

declare repeat_div.simps [simp del]

text \<open>
  Line 473, \<^verbatim>\<open>math.ceil(math.log2(math.sqrt(H * W / xs)))\<close>, over the reals. The division
  raises for \<open>xs = 0\<close>, \<^verbatim>\<open>math.sqrt\<close> raises for a negative argument and \<^verbatim>\<open>math.log2\<close> for zero.
\<close>
definition feature_scale :: "int \<Rightarrow> int \<Rightarrow> nat \<Rightarrow> py_error + int" where
  "feature_scale H W xs =
     (if xs = 0 then Inl ZeroDivisionError
      else if H * W \<le> 0 then Inl ValueError
      else Inr \<lceil>log 2 (sqrt (real_of_int (H * W) / real xs))\<rceil>)"

text \<open>Lines 473 to 475: \<^verbatim>\<open>(dsh, dsw)\<close>.\<close>
definition feature_resolution :: "int \<Rightarrow> int \<Rightarrow> nat \<Rightarrow> py_error + (int \<times> int)" where
  "feature_resolution H W xs =
     (case feature_scale H W xs of
        Inl e \<Rightarrow> Inl e
      | Inr scale \<Rightarrow> Inr (repeat_div H scale, repeat_div W scale))"

text \<open>
  The hooked \<^verbatim>\<open>forward\<close>. Lines 484 to 515, the attention per chunk in floating point and its
  blend by the resized masks, are the parameter \<open>regional\<close>, which receives what those lines
  read: the processor, the module, \<^verbatim>\<open>dsh\<close>, \<^verbatim>\<open>dsw\<close>, \<^verbatim>\<open>num_chunks\<close> and the arguments.
\<close>
definition hooked_forward ::
  "(processor \<Rightarrow> ('a, 'k) forward_fn submodule \<Rightarrow> int \<Rightarrow> int \<Rightarrow> nat \<Rightarrow> ('a, 'k) forward_fn)
     \<Rightarrow> processor \<Rightarrow> ('a, 'k) forward_fn submodule \<Rightarrow> ('a, 'k) forward_fn" where
  "hooked_forward regional proc m x context amask kwargs =
     (if \<not> active proc \<or> length (regmasks proc) = 0 then call_original m x context amask kwargs
      else case size1 x of
        Inl e \<Rightarrow> Inl e
      | Inr xs \<Rightarrow>
          (case feature_resolution (height proc) (width proc) xs of
             Inl e \<Rightarrow> Inl e
           | Inr (dsh, dsw) \<Rightarrow>
               (case size1 (default context x) of
                  Inl e \<Rightarrow> Inl e
                | Inr total_tokens \<Rightarrow>
                    let num_chunks = total_tokens div TOKENSCON in
                    if num_chunks \<le> 1 then call_original m x context amask kwargs
                    else regional proc m dsh dsw num_chunks x context amask kwargs)))"

subsection \<open>The hook manager: \<^verbatim>\<open>hook_forwards\<close>, \<^verbatim>\<open>unhook_forwards\<close>\<close>

text \<open>\<^verbatim>\<open>pat in s\<close> on strings.\<close>
fun contains :: "string \<Rightarrow> string \<Rightarrow> bool" where
  "contains pat [] = (pat = [])"
| "contains pat (c # cs) = (take (length pat) (c # cs) = pat \<or> contains pat cs)"

definition is_target :: "'f submodule \<Rightarrow> bool" where
  "is_target m \<longleftrightarrow> contains ''attn2'' (name m) \<and> class_name m = ''CrossAttention''"







subsection \<open>Concrete inputs for the instances below\<close>

text \<open>An original forward that returns its input, and a stand-in for lines 484 to 515.\<close>
definition example_original :: "(unit, unit) forward_fn" where
  "example_original x context amask kwargs = Inr x"

definition example_regional ::
  "processor \<Rightarrow> (unit, unit) forward_fn submodule \<Rightarrow> int \<Rightarrow> int \<Rightarrow> nat \<Rightarrow> (unit, unit) forward_fn" where
  "example_regional proc m dsh dsw num_chunks x context amask kwargs =
     Inr \<lparr>shape = [nat dsh, nat dsw, num_chunks], payload = ()\<rparr>"

definition example_attn :: "(unit, unit) forward_fn submodule" where
  "example_attn = \<lparr>name = ''input_blocks.1.1.transformer_blocks.0.attn2'', class_name = ''CrossAttention'',
     heads = 8, forward = example_original, original_forward = Some example_original\<rparr>"


definition example_globals :: globals where
  "example_globals = \<lparr>COLREG = None, REGUSE = [], VARIANT = 0\<rparr>"






text \<open>What \<^verbatim>\<open>setup_masks\<close> leaves in the processor: region masks, base mask, active flag.\<close>
definition ingested ::
  "py_error + (processor \<times> globals) \<Rightarrow> (region_mask list \<times> region_mask option \<times> bool) option" where
  "ingested r = (case r of Inl e \<Rightarrow> None | Inr (p, g) \<Rightarrow> Some (regmasks p, regbase p, active p))"

text \<open>
  A 2 by 3 mask image: region 1 in two pixels, one of them off by a few units in each
  channel, region 3 in one pixel, and white elsewhere.
\<close>
definition example_mask_image :: image where
  "example_mask_image =
     [[(64, 128, 128), (255, 255, 255), (96, 64, 128)],
      [(66, 125, 130), (255, 255, 255), (255, 255, 255)]]"

section \<open>Properties\<close>

subsection \<open>The colour allocator\<close>

lemma ceil_log2_le_iff: "ceil_log2 k \<le> c \<longleftrightarrow> k \<le> 2 ^ c"
proof (induction k arbitrary: c rule: ceil_log2.induct)
  case (1 k)
  show ?case
  proof (cases "k \<le> 1")
    case True
    then have "k \<le> 2 ^ c" using one_le_power [of "2::nat" c] by linarith
    with True show ?thesis by (simp add: ceil_log2.simps)
  next
    case False
    show ?thesis
    proof (cases c)
      case 0
      with False show ?thesis by (simp add: ceil_log2.simps)
    next
      case (Suc c')
      have "ceil_log2 ((k + 1) div 2) \<le> c' \<longleftrightarrow> (k + 1) div 2 \<le> 2 ^ c'"
        using "1.IH" [OF False] .
      also have "\<dots> \<longleftrightarrow> k \<le> 2 ^ Suc c'" by auto
      finally show ?thesis using False Suc by (simp add: ceil_log2.simps [of k])
    qed
  qed
qed

lemma ceil_log2_upper: "k \<le> 2 ^ ceil_log2 k"
  using ceil_log2_le_iff [of k "ceil_log2 k"] by simp

lemma ceil_log2_lower: "0 < ceil_log2 k \<Longrightarrow> 2 ^ (ceil_log2 k - 1) < k"
  using ceil_log2_le_iff [of k "ceil_log2 k - 1"] by (cases "k \<le> 2 ^ (ceil_log2 k - 1)") auto

lemma ceil_log2_mono: "a \<le> b \<Longrightarrow> ceil_log2 a \<le> ceil_log2 b"
  using ceil_log2_le_iff [of a "ceil_log2 b"] ceil_log2_upper [of b] by simp

lemma ceil_log2_pos: "2 \<le> k \<Longrightarrow> 0 < ceil_log2 k"
  using ceil_log2_le_iff [of k 0] by (cases "ceil_log2 k") auto

lemma ceil_log2_one [simp]: "ceil_log2 (Suc 0) = 0"
  by (simp add: ceil_log2.simps)

lemma ceil_log2_real:
  assumes "1 \<le> k"
  shows "int (ceil_log2 k) = \<lceil>log 2 (real k)\<rceil>"
proof (cases "ceil_log2 k")
  case 0
  then have "k \<le> 1" using ceil_log2_upper [of k] by simp
  with assms have "k = 1" by simp
  then show ?thesis by simp
next
  case (Suc c)
  have up: "log 2 (real k) \<le> real (Suc c)"
    using log2_of_power_le [of k "Suc c"] ceil_log2_upper [of k] assms Suc by simp
  have "2 ^ c < k" using ceil_log2_lower [of k] Suc by simp
  then have lo: "real c < log 2 (real k)"
    using less_log2_of_power [of c k] by simp
  have "\<lceil>log 2 (real k)\<rceil> = int (Suc c)"
    by (rule ceiling_unique) (use up lo in auto)
  with Suc show ?thesis by simp
qed

text \<open>When the cycle number changes between \<open>i\<close> and \<open>i + 1\<close>, \<open>i\<close> is a power of two.\<close>
lemma ceil_log2_jump:
  assumes "ceil_log2 (Suc i) \<noteq> ceil_log2 i" and "1 \<le> i"
  shows "i = 2 ^ (ceil_log2 (Suc i) - 1)"
proof -
  have "ceil_log2 i \<le> ceil_log2 (Suc i)" by (rule ceil_log2_mono) simp
  with assms have lt: "ceil_log2 i \<le> ceil_log2 (Suc i) - 1" and pos: "0 < ceil_log2 (Suc i)" by auto
  have "i \<le> 2 ^ (ceil_log2 (Suc i) - 1)" using lt by (simp only: ceil_log2_le_iff)
  moreover have "2 ^ (ceil_log2 (Suc i) - 1) < Suc i" using ceil_log2_lower [OF pos] .
  ultimately show ?thesis by simp
qed

lemma pow2_nat [simp]: "pow2 (int c) = 2 ^ c"
  by (simp add: pow2_def)

lemma hue_of_next:
  assumes "ceil_log2 (Suc i) = ceil_log2 i" and "1 \<le> i"
  shows "hue_of (i - 1) + 2 * (1 / 2 ^ ceil_log2 i) = hue_of i"
proof -
  have i2: "2 \<le> i"
  proof (rule ccontr)
    assume "\<not> 2 \<le> i"
    with assms(2) have "i = 1" by simp
    with assms(1) show False using ceil_log2_pos [of 2] by (simp add: numeral_2_eq_2)
  qed
  then have pos: "0 < ceil_log2 i" by (rule ceil_log2_pos)
  let ?k = "ceil_log2 i"
  have lo: "2 ^ (?k - 1) < i" using ceil_log2_lower [OF pos] .
  have "hue_of (i - 1) = of_nat (2 * (i - 1 - 2 ^ (?k - 1)) + 1) / 2 ^ ?k"
    using i2 by (simp add: hue_of_def)
  moreover have "hue_of i = of_nat (2 * (i - 2 ^ (?k - 1)) + 1) / 2 ^ ?k"
    using i2 assms(1) by (simp add: hue_of_def)
  moreover have "2 * (i - 2 ^ (?k - 1)) + 1 = (2 * (i - 1 - 2 ^ (?k - 1)) + 1) + 2"
    using lo by simp
  ultimately show ?thesis by (simp add: field_simps)
qed

lemma hue_step_inv:
  assumes "hue_inv s i" and "1 \<le> i"
  shows "hue_inv (hue_step s i) (Suc i) \<and> cval (hue_step s i) = hue_of i"
proof -
  have pos: "0 < ceil_log2 (Suc i)" using assms(2) by (intro ceil_log2_pos) simp
  show ?thesis
  proof (cases "ceil_log2 (Suc i) = ceil_log2 i")
    case True
    with assms pos have "hue_step s i = s\<lparr>cval := cval s + 2 * dlt s\<rparr>"
      by (simp add: hue_step_def hue_inv_def Let_def)
    moreover have "cval s + 2 * dlt s = hue_of i"
      using assms True hue_of_next [OF True assms(2)] by (simp add: hue_inv_def)
    ultimately show ?thesis using assms True by (simp add: hue_inv_def)
  next
    case False
    with assms pos have st: "hue_step s i =
        s\<lparr>dlt := 1 / 2 ^ ceil_log2 (Suc i), cval := 1 / 2 ^ ceil_log2 (Suc i),
          pcyc := int (ceil_log2 (Suc i))\<rparr>"
      by (simp add: hue_step_def hue_inv_def Let_def)
    have "i = 2 ^ (ceil_log2 (Suc i) - 1)" using ceil_log2_jump [OF False assms(2)] .
    then have "i - 2 ^ (ceil_log2 (Suc i) - 1) = 0" by simp
    then have "hue_of i = 1 / 2 ^ ceil_log2 (Suc i)"
      using assms(2) by (simp add: hue_of_def)
    with st show ?thesis by (simp add: hue_inv_def)
  qed
qed

lemma hue_loop_from:
  assumes "hue_inv s i" and "1 \<le> i"
  shows "hue_loop s [i ..< n] = map hue_of [i ..< n]"
  using assms
proof (induction "n - i" arbitrary: i s)
  case 0
  then show ?case by simp
next
  case (Suc d)
  then have lt: "i < n" by simp
  have step: "hue_inv (hue_step s i) (Suc i)" "cval (hue_step s i) = hue_of i"
    using hue_step_inv [OF Suc.prems] by simp_all
  have "hue_loop (hue_step s i) [Suc i ..< n] = map hue_of [Suc i ..< n]"
    using Suc.hyps(1) [of "Suc i" "hue_step s i"] Suc.hyps(2) step(1) by simp
  with step(2) lt show ?case by (simp add: upt_rec [of i n] Let_def)
qed

lemma ceil_log2_two [simp]: "ceil_log2 2 = 1" "ceil_log2 (Suc (Suc 0)) = 1"
  by (simp_all add: ceil_log2.simps)

lemma hue_step_fresh: "hue_inv (hue_step s 0) (Suc 0) \<and> cval (hue_step s 0) = hue_of 0"
  by (simp add: hue_step_def hue_inv_def hue_of_def Let_def)

lemma hue_loop_fresh: "hue_loop s [0 ..< n] = map hue_of [0 ..< n]"
proof (cases "0 < n")
  case False
  then show ?thesis by simp
next
  case True
  have "hue_loop (hue_step s 0) [Suc 0 ..< n] = map hue_of [Suc 0 ..< n]"
    using hue_loop_from [of "hue_step s 0" "Suc 0" n] hue_step_fresh [of s] by simp
  with True hue_step_fresh [of s] show ?thesis by (simp add: upt_rec [of 0 n] Let_def)
qed

lemma py_fmod_nat: "0 < b \<Longrightarrow> py_fmod (of_nat a) (of_nat b) = of_nat (a mod b)"
proof -
  assume "0 < b"
  have "\<lfloor>(of_nat a :: rat) / of_nat b\<rfloor> = int (a div b)"
    by (simp add: floor_divide_of_nat_eq)
  moreover have "(of_nat a :: rat) = of_nat (b * (a div b) + a mod b)" by simp
  ultimately show ?thesis unfolding py_fmod_def by (simp only: of_nat_add of_nat_mult of_int_of_nat_eq)
qed

lemma resume_state_inv:
  assumes "1 \<le> st"
  shows "hue_inv (resume_state st) st"
proof -
  let ?k = "ceil_log2 st"
  have pc: "pcyc (resume_state st) = int ?k" by (simp add: resume_state_def Let_def)
  have dl: "dlt (resume_state st) = 1 / 2 ^ ?k" by (simp add: resume_state_def Let_def)
  have "cval (resume_state st) = hue_of (st - 1)" if same: "ceil_log2 (Suc st) = ?k"
  proof -
    have st2: "2 \<le> st"
    proof (rule ccontr)
      assume "\<not> 2 \<le> st"
      with assms have "st = 1" by simp
      with same show False using ceil_log2_pos [of 2] by (simp add: numeral_2_eq_2)
    qed
    then have pos: "0 < ?k" by (rule ceil_log2_pos)
    have lo: "2 ^ (?k - 1) < st" using ceil_log2_lower [OF pos] .
    have "Suc st \<le> 2 ^ ?k" using ceil_log2_upper [of "Suc st"] same by simp
    then have hi: "st < 2 * 2 ^ (?k - 1)" using pos by (cases ?k) auto
    have md: "st mod 2 ^ (?k - 1) = st - 2 ^ (?k - 1)"
      using lo hi by (simp add: mod_if [of st] )
    have e: "int ?k - 1 = int (?k - 1)" using pos by simp
    have "pow2 (int ?k - 1) = 2 ^ (?k - 1)" unfolding e by (rule pow2_nat)
    then have p2: "pow2 (int ?k - 1) = of_nat (2 ^ (?k - 1))" by simp
    have "py_fmod (of_nat st) (pow2 (int ?k - 1)) = of_nat (st mod 2 ^ (?k - 1))"
      unfolding p2 by (rule py_fmod_nat) simp
    then have cv: "cval (resume_state st) =
        1 / 2 ^ ?k + 2 * (1 / 2 ^ ?k) * (of_nat (st - 2 ^ (?k - 1)) - 1)"
      using md by (simp add: resume_state_def Let_def)
    have "st - 1 \<noteq> 0" using st2 by simp
    then have "hue_of (st - 1) = of_nat (2 * (st - 1 - 2 ^ (?k - 1)) + 1) / 2 ^ ?k"
      using st2 by (simp add: hue_of_def)
    also have "of_nat (2 * (st - 1 - 2 ^ (?k - 1)) + 1)
        = 2 * (of_nat (st - 1 - 2 ^ (?k - 1)) :: rat) + 1"
      by (simp only: of_nat_add of_nat_mult of_nat_numeral of_nat_1)
    also have "(of_nat (st - 1 - 2 ^ (?k - 1)) :: rat) = of_nat (st - 2 ^ (?k - 1)) - 1"
      using lo by (simp add: of_nat_diff)
    finally have h: "hue_of (st - 1) = (2 * (of_nat (st - 2 ^ (?k - 1)) - 1) + 1) / 2 ^ ?k" .
    have "1 / d + 2 * (1 / d) * (a - 1) = (2 * (a - 1) + 1) / d" for a d :: rat
      by (simp add: add_divide_distrib diff_divide_distrib algebra_simps)
    then show ?thesis unfolding cv h .
  qed
  with pc dl show ?thesis by (simp add: hue_inv_def)
qed






lemma length_hue_loop [simp]: "length (hue_loop s is) = length is"
  by (induction "is" arbitrary: s) (simp_all add: Let_def)

lemma deterministic_colours_fresh:
  "0 < n \<Longrightarrow> deterministic_colours n None = Some (map colour_at [0 ..< nat n])"
proof -
  have "map hue_colour (map hue_of xs) = map colour_at xs" for xs
    by (simp add: colour_at_def)
  then show "0 < n \<Longrightarrow> ?thesis"
    by (simp add: deterministic_colours_def hue_loop_fresh del: map_map)
qed

lemma deterministic_colours_resume:
  assumes "0 < m" "m \<le> n"
  shows "deterministic_colours n (deterministic_colours m None) = deterministic_colours n None"
proof (cases "m = n")
  case True
  with assms show ?thesis by (simp add: deterministic_colours_def)
next
  case False
  with assms have lt: "m < n" by simp
  have n0: "0 < n" using assms by simp
  let ?l = "map colour_at [0 ..< nat m]"
  have len: "length ?l = nat m" by simp
  have st: "1 \<le> nat m" using assms by simp
  have "hue_loop (resume_state (nat m)) [nat m ..< nat n] = map hue_of [nat m ..< nat n]"
    using hue_loop_from [OF resume_state_inv [OF st] st] .
  moreover have "map hue_colour (map hue_of xs) = map colour_at xs" for xs
    by (simp add: colour_at_def)
  ultimately have "deterministic_colours n (Some ?l) = Some (?l @ map colour_at [nat m ..< nat n])"
    using lt assms by (simp add: deterministic_colours_def Let_def del: map_map)
  also have "?l @ map colour_at [nat m ..< nat n] = map colour_at ([0 ..< nat m] @ [nat m ..< nat n])"
    by simp
  also have "[0 ..< nat m] @ [nat m ..< nat n] = [0 ..< nat n]"
    using lt assms upt_add_eq_append [of 0 "nat m" "nat n - nat m"] by simp
  finally show ?thesis
    using deterministic_colours_fresh [OF n0] deterministic_colours_fresh [OF assms(1)] by simp
qed


text \<open>
  Claim C9. For every \<open>n \<le> 0\<close> and every value of the optional existing sequence, also one
  whose length is at least \<open>n\<close>, the allocator returns the absent result \<^verbatim>\<open>None\<close>; the test
  on \<open>n\<close> is the first statement of the function, so nothing can be raised before it.
\<close>
theorem deterministic_colours_nonpositive:
  "n \<le> 0 \<Longrightarrow> deterministic_colours n lcol = None"
  by (simp add: deterministic_colours_def)

theorem deterministic_colours_nonpositive_witness:
  "(0::int) \<le> 0 \<and> (0::int) \<le> int (length [(128, 64, 64) :: colour])
     \<and> deterministic_colours 0 (Some [(128, 64, 64)]) = None
     \<and> (- 3 :: int) \<le> 0 \<and> deterministic_colours (- 3) None = None"
  using deterministic_colours_nonpositive [of 0 "Some [(128, 64, 64)]"]
    deterministic_colours_nonpositive [of "- 3" None]
  by simp

text \<open>
  Claim C2 (allocator prefix stability). Let \<open>n > 0\<close>. An existing sequence of length at
  least \<open>n\<close> is returned unchanged; a shorter one is returned with exactly the
  \<open>n - length\<close> missing entries appended; and for \<open>0 < m \<le> n\<close> the call
  \<^verbatim>\<open>deterministic_colours(n, deterministic_colours(m))\<close> returns \<open>n\<close> entries whose first
  \<open>m\<close> are those of \<^verbatim>\<open>deterministic_colours(m)\<close>.
\<close>
theorem deterministic_colours_prefix_stable:
  assumes "0 < n"
  shows "(n \<le> int (length l) \<longrightarrow> deterministic_colours n (Some l) = Some l)
    \<and> (int (length l) < n \<longrightarrow>
         (\<exists>suffix. length suffix = nat n - length l
            \<and> deterministic_colours n (Some l) = Some (l @ suffix)))
    \<and> (0 < m \<and> m \<le> n \<longrightarrow>
         (\<exists>a r. deterministic_colours m None = Some a \<and> length a = nat m
            \<and> deterministic_colours n (deterministic_colours m None) = Some r
            \<and> length r = nat n \<and> take (nat m) r = a))"
proof (intro conjI impI)
  assume "n \<le> int (length l)"
  with assms show "deterministic_colours n (Some l) = Some l"
    by (simp add: deterministic_colours_def)
next
  assume "int (length l) < n"
  with assms show "\<exists>suffix. length suffix = nat n - length l
      \<and> deterministic_colours n (Some l) = Some (l @ suffix)"
    by (simp add: deterministic_colours_def Let_def)
next
  assume m: "0 < m \<and> m \<le> n"
  let ?a = "map colour_at [0 ..< nat m]"
  let ?r = "map colour_at [0 ..< nat n]"
  have a: "deterministic_colours m None = Some ?a"
    using m by (simp add: deterministic_colours_fresh)
  have "deterministic_colours n (deterministic_colours m None) = deterministic_colours n None"
    using m by (intro deterministic_colours_resume) simp_all
  then have r: "deterministic_colours n (deterministic_colours m None) = Some ?r"
    using assms by (simp only: deterministic_colours_fresh)
  have "0 + nat m \<le> nat n" using m by arith
  then have "take (nat m) [0 ..< nat n] = [0 ..< 0 + nat m]" by (rule take_upt)
  then have "take (nat m) [0 ..< nat n] = [0 ..< nat m]" by simp
  then have "take (nat m) ?r = ?a" by (simp add: take_map)
  with a r show "\<exists>a r. deterministic_colours m None = Some a \<and> length a = nat m
            \<and> deterministic_colours n (deterministic_colours m None) = Some r
            \<and> length r = nat n \<and> take (nat m) r = a"
    by simp
qed

theorem deterministic_colours_prefix_stable_witness:
  "(0::int) < 3 \<and> (0::int) < 2 \<and> (2::int) \<le> 3
   \<and> int (length [(128, 64, 64) :: colour]) < 3
   \<and> (\<exists>suffix. length suffix = 2
         \<and> deterministic_colours 3 (Some [(128, 64, 64)]) = Some ((128, 64, 64) # suffix))
   \<and> (\<exists>a r. deterministic_colours 2 None = Some a \<and> length a = 2
         \<and> deterministic_colours 3 (deterministic_colours 2 None) = Some r
         \<and> length r = 3 \<and> take 2 r = a)
   \<and> (2::int) \<le> int (length [(1, 2, 3) :: colour, (4, 5, 6), (7, 8, 9)])
   \<and> deterministic_colours 2 (Some [(1, 2, 3), (4, 5, 6), (7, 8, 9)])
       = Some [(1, 2, 3), (4, 5, 6), (7, 8, 9)]"
  using deterministic_colours_prefix_stable [of 3 "[(128, 64, 64)]" 2]
    deterministic_colours_prefix_stable [of 2 "[(1, 2, 3), (4, 5, 6), (7, 8, 9)]" 1]
  by simp




subsection \<open>The attention hook\<close>












subsection \<open>Mask ingestion with an absent image\<close>

text \<open>
  Claim C10. \<^verbatim>\<open>setup_masks\<close> on an absent mask image returns the processor and the globals as
  they were: region masks, base mask and active flag are unchanged, so an inactive
  processor stays inactive and the hooked forward still delegates to the original forward.
\<close>
theorem setup_masks_absent:
  "setup_masks None layer_count p g = Inr (p, g)
   \<and> (\<not> active p \<longrightarrow>
        (\<forall>p' g'. setup_masks None layer_count p g = Inr (p', g') \<longrightarrow>
           regmasks p' = regmasks p \<and> regbase p' = regbase p \<and> \<not> active p'
           \<and> hooked_forward regional p' m x context amask kwargs
               = call_original m x context amask kwargs))"
  by (simp add: setup_masks_def hooked_forward_def)

theorem setup_masks_absent_witness:
  "\<not> active (new_processor 512 512 1 False False)
   \<and> setup_masks None 3 (new_processor 512 512 1 False False) example_globals
       = Inr (new_processor 512 512 1 False False, example_globals)
   \<and> hooked_forward example_regional (new_processor 512 512 1 False False) example_attn
        \<lparr>shape = [2, 4096, 320], payload = ()\<rparr> (Some \<lparr>shape = [2, 154, 768], payload = ()\<rparr>) None ()
       = Inr \<lparr>shape = [2, 4096, 320], payload = ()\<rparr>"
  using setup_masks_absent [of 3 "new_processor 512 512 1 False False" example_globals
      example_regional example_attn "\<lparr>shape = [2, 4096, 320], payload = ()\<rparr>"
      "Some \<lparr>shape = [2, 154, 768], payload = ()\<rparr>" None "()"]
  by (simp add: new_processor_def call_original_def example_attn_def example_original_def)

subsection \<open>The hook manager\<close>

lemma is_target_update [simp]:
  "is_target (m\<lparr>forward := f\<rparr>) = is_target m"
  "is_target (m\<lparr>original_forward := fo\<rparr>) = is_target m"
  by (simp_all add: is_target_def)













subsection \<open>The region codec\<close>

lemma deterministic_colours_length:
  assumes "0 < n"
  shows "\<exists>cs. deterministic_colours n l = Some cs \<and> nat n \<le> length cs"
proof (cases l)
  case None
  with assms show ?thesis by (simp add: deterministic_colours_def)
next
  case (Some a)
  have "n \<le> int (length a) \<Longrightarrow> nat n \<le> length a" by arith
  with Some assms show ?thesis by (simp add: deterministic_colours_def Let_def)
qed





subsection \<open>Mask ingestion\<close>

lemma zip_map_same: "zip (map f xs) (map g xs) = map (\<lambda>x. (f x, g x)) xs"
  by (induction xs) simp_all

lemma mask_add_pointwise:
  "mask_add (map (map f) img) (map (map g) img) = map (map (\<lambda>px. f px + g px)) img"
  by (simp add: mask_add_def zip_map_same)

lemma zeros_like_pointwise: "zeros_like (map (map f) img) = map (map (\<lambda>px. 0)) img"
  by (simp add: zeros_like_def)

lemma astype_float_pointwise:
  "astype_float (map (map P) img) = map (map (\<lambda>px. if P px then 1 else 0)) img"
  by (simp add: astype_float_def)

lemma np_any_pointwise:
  "np_any (map (map P) img) \<longleftrightarrow> (\<exists>row \<in> set img. \<exists>px \<in> set row. P px)"
  by (auto simp add: np_any_def list_ex_iff)

lemma mask_any_float:
  "mask_any (map (map (\<lambda>px. if P px then 1 else 0)) img) \<longleftrightarrow> (\<exists>row \<in> set img. \<exists>px \<in> set row. P px)"
proof -
  have row: "list_ex (\<lambda>v. v \<noteq> 0) (map (\<lambda>px. if P px then 1 else (0::int)) r) \<longleftrightarrow> (\<exists>px \<in> set r. P px)"
    for r by (induction r) auto
  show ?thesis unfolding mask_any_def by (induction img) (simp_all add: row)
qed

lemma base_mask_pointwise:
  "base_mask (map (map f) img) = map (map (\<lambda>px. 1 - min (max (f px) 0) 1)) img"
  by (simp add: base_mask_def)

lemma map_of_dict_set: "map_of (dict_set d k v) = (map_of d)(k \<mapsto> v)"
  by (induction d) (auto simp add: fun_eq_iff)

text \<open>The first loop of \<^verbatim>\<open>setup_masks\<close> keeps the ids with a matching pixel, in order.\<close>
lemma detect_regions_filter:
  assumes "\<forall>c \<in> set cs. c < length cr"
  shows "detect_regions img cr cs (detected, ru) =
     Inr (detected @ map (\<lambda>c. (c, map (map (colour_match (cr ! c))) img))
                       (filter (\<lambda>c. \<exists>row \<in> set img. \<exists>px \<in> set row. colour_match (cr ! c) px) cs),
          foldl (\<lambda>d c. dict_set d (int c) (cr ! c)) ru
                (filter (\<lambda>c. \<exists>row \<in> set img. \<exists>px \<in> set row. colour_match (cr ! c) px) cs))"
  using assms
proof (induction cs arbitrary: detected ru)
  case Nil
  then show ?case by simp
next
  case (Cons c cs)
  then show ?case by (simp add: Let_def np_any_pointwise)
qed

lemma map_of_foldl_dict_set:
  "map_of (foldl (\<lambda>d c. dict_set d (int c) (cr ! c)) ru cs) (int k)
     = (if k \<in> set cs then Some (cr ! k) else map_of ru (int k))"
proof (induction cs arbitrary: ru)
  case Nil
  then show ?case by simp
next
  case (Cons c cs)
  then show ?case by (simp add: map_of_dict_set)
qed

text \<open>The second loop, started from a running union that exists already.\<close>
lemma collect_masks_some:
  assumes "\<forall>c \<in> set act. \<exists>row \<in> set img. \<exists>px \<in> set row. colour_match (cr ! c) px"
  shows "collect_masks (map (\<lambda>c. (c, map (map (colour_match (cr ! c))) img)) act)
           (Some (map (map f) img), rm)
     = (Some (map (map (\<lambda>px. f px + sum_list (map (\<lambda>c. if colour_match (cr ! c) px then 1 else 0) act))) img),
        rm @ map (\<lambda>c. map (map (\<lambda>px. if colour_match (cr ! c) px then 1 else 0)) img) act)"
  using assms
proof (induction act arbitrary: f rm)
  case Nil
  then show ?case by simp
next
  case (Cons c act)
  have any: "mask_any (map (map (\<lambda>px. if colour_match (cr ! c) px then 1 else 0)) img)"
    using Cons.prems by (simp add: mask_any_float)
  have rest: "\<forall>c \<in> set act. \<exists>row \<in> set img. \<exists>px \<in> set row. colour_match (cr ! c) px"
    using Cons.prems by simp
  show ?case
    using any Cons.IH [OF rest, of "\<lambda>px. f px + (if colour_match (cr ! c) px then 1 else 0)"]
    by (simp add: astype_float_pointwise mask_add_pointwise add.assoc)
qed

lemma collect_masks_none:
  assumes "\<forall>c \<in> set act. \<exists>row \<in> set img. \<exists>px \<in> set row. colour_match (cr ! c) px"
  shows "collect_masks (map (\<lambda>c. (c, map (map (colour_match (cr ! c))) img)) act) (None, [])
     = (if act = [] then None
        else Some (map (map (\<lambda>px. sum_list (map (\<lambda>c. if colour_match (cr ! c) px then 1 else 0) act))) img),
        map (\<lambda>c. map (map (\<lambda>px. if colour_match (cr ! c) px then 1 else 0)) img) act)"
proof (cases act)
  case Nil
  then show ?thesis by simp
next
  case (Cons c rest)
  have any: "mask_any (map (map (\<lambda>px. if colour_match (cr ! c) px then 1 else 0)) img)"
    using assms Cons by (simp add: mask_any_float)
  have rest: "\<forall>c \<in> set rest. \<exists>row \<in> set img. \<exists>px \<in> set row. colour_match (cr ! c) px"
    using assms Cons by simp
  show ?thesis
    using any Cons collect_masks_some [OF rest, of "\<lambda>px. 0 + (if colour_match (cr ! c) px then 1 else 0)" "[map (map (\<lambda>px. if colour_match (cr ! c) px then 1 else 0)) img]"]
    by (simp add: astype_float_pointwise mask_add_pointwise zeros_like_pointwise)
qed

lemma clip_count:
  "1 - min (max (sum_list (map (\<lambda>c. if P c then 1 else 0) act)) 0) (1::int)
     = (if \<exists>c \<in> set act. P c then 0 else 1)"
proof -
  have nonneg: "0 \<le> sum_list (map (\<lambda>c. if P c then 1 else (0::int)) xs)" for xs
    by (induction xs) simp_all
  have "(\<exists>c \<in> set act. P c) \<longleftrightarrow> 1 \<le> sum_list (map (\<lambda>c. if P c then 1 else (0::int)) act)"
  proof (induction act)
    case Nil
    then show ?case by simp
  next
    case (Cons a act)
    then show ?case using nonneg [of act] by auto
  qed
  then show ?thesis using nonneg [of act] by auto
qed

text \<open>
  Claim C3. For an RGB mask image and a region count, with \<open>cr\<close> the colour sequence of
  at least \<open>max (layer_count + 1) 359\<close> entries: the active ids \<open>act\<close> are the ids below the
  region count, in ascending order, for which some pixel has all three channel differences
  from \<open>cr ! c\<close> below 10 (\<open>colour_match\<close>); they are recorded in \<^verbatim>\<open>REGUSE\<close>; the region masks
  are one binary mask per active id and none for the others; and when an id is active the
  base mask is one minus the sum of the region masks clipped to \<open>[0, 1]\<close>, that is the
  complement of their union. Without an active id the base mask stays as it was. No
  exception is raised.
\<close>
theorem setup_masks_regions:
  "\<exists>cr act p' g'.
     deterministic_colours (max (layer_count + 1) MAXCOLREG) (COLREG g) = Some cr
   \<and> act = filter (\<lambda>c. \<exists>row \<in> set img. \<exists>px \<in> set row. colour_match (cr ! c) px) [0 ..< nat layer_count]
   \<and> setup_masks (Some (RGB img)) layer_count p g = Inr (p', g')
   \<and> regmasks p' = map (\<lambda>c. map (map (\<lambda>px. if colour_match (cr ! c) px then 1 else 0)) img) act
   \<and> (act \<noteq> [] \<longrightarrow>
         regbase p' = Some (map (map (\<lambda>px. 1 - min (max (sum_list (map (\<lambda>c. if colour_match (cr ! c) px then 1 else 0) act)) 0) 1)) img)
       \<and> regbase p' = Some (map (map (\<lambda>px. if \<exists>c \<in> set act. colour_match (cr ! c) px then 0 else 1)) img))
   \<and> (act = [] \<longrightarrow> regbase p' = regbase p)
   \<and> (\<forall>c \<in> set act. map_of (REGUSE g') (int c) = Some (cr ! c))
   \<and> active p' \<and> COLREG g' = Some cr"
proof -
  have "0 < max (layer_count + 1) MAXCOLREG" by (simp add: MAXCOLREG_def)
  from deterministic_colours_length [OF this, of "COLREG g"]
  obtain cr where cr: "deterministic_colours (max (layer_count + 1) MAXCOLREG) (COLREG g) = Some cr"
    and len: "nat (max (layer_count + 1) MAXCOLREG) \<le> length cr" by blast
  define act where "act = filter (\<lambda>c. \<exists>row \<in> set img. \<exists>px \<in> set row. colour_match (cr ! c) px) [0 ..< nat layer_count]"
  have "nat layer_count \<le> nat (max (layer_count + 1) MAXCOLREG)" by arith
  with len have inr: "\<forall>c \<in> set [0 ..< nat layer_count]. c < length cr" by simp
  have found: "\<forall>c \<in> set act. \<exists>row \<in> set img. \<exists>px \<in> set row. colour_match (cr ! c) px"
    by (simp add: act_def)
  define ru where "ru = foldl (\<lambda>d c. dict_set d (int c) (cr ! c)) (REGUSE g) act"
  define rm where "rm = map (\<lambda>c. map (map (\<lambda>px. if colour_match (cr ! c) px then 1 else (0::int))) img) act"
  define tm where "tm = (if act = [] then None
        else Some (map (map (\<lambda>px. sum_list (map (\<lambda>c. if colour_match (cr ! c) px then 1 else (0::int)) act))) img))"
  define p' where "p' = (case tm of None \<Rightarrow> p\<lparr>regmasks := rm\<rparr>
      | Some t \<Rightarrow> p\<lparr>regmasks := rm, regbase := Some (base_mask t)\<rparr>)\<lparr>active := True\<rparr>"
  define g' where "g' = g\<lparr>COLREG := Some cr, REGUSE := ru\<rparr>"
  have det: "detect_regions img cr [0 ..< nat layer_count] ([], REGUSE g)
      = Inr (map (\<lambda>c. (c, map (map (colour_match (cr ! c))) img)) act, ru)"
    using detect_regions_filter [OF inr, of img "[]" "REGUSE g"] by (simp add: act_def ru_def)
  have col: "collect_masks (map (\<lambda>c. (c, map (map (colour_match (cr ! c))) img)) act) (None, []) = (tm, rm)"
    using collect_masks_none [OF found] by (simp add: tm_def rm_def)
  have run: "setup_masks (Some (RGB img)) layer_count p g = Inr (p', g')"
    by (simp add: setup_masks_def as_rgb_def cr det col p'_def g'_def Let_def)
  have masks: "regmasks p' = rm" by (simp add: p'_def split: option.splits)
  have base1: "regbase p' = Some (map (map (\<lambda>px. 1 - min (max (sum_list (map (\<lambda>c. if colour_match (cr ! c) px then 1 else 0) act)) 0) 1)) img)"
    if "act \<noteq> []"
    using that by (simp add: p'_def tm_def base_mask_pointwise)
  have base2: "regbase p' = Some (map (map (\<lambda>px. if \<exists>c \<in> set act. colour_match (cr ! c) px then 0 else 1)) img)"
    if "act \<noteq> []"
    using base1 [OF that] by (simp only: clip_count)
  have base0: "regbase p' = regbase p" if "act = []"
    using that by (simp add: p'_def tm_def)
  have used: "\<forall>c \<in> set act. map_of (REGUSE g') (int c) = Some (cr ! c)"
    by (simp add: g'_def ru_def map_of_foldl_dict_set)
  have fin: "active p'" "COLREG g' = Some cr"
    by (simp_all add: p'_def g'_def split: option.splits)
  show ?thesis
    using cr act_def run masks base1 base2 base0 used fin unfolding rm_def by blast
qed

lemma colour_at_first:
  "colour_at 0 = (128, 64, 64)" "colour_at 1 = (64, 128, 128)"
  "colour_at 2 = (96, 128, 64)" "colour_at 3 = (96, 64, 128)"
  by code_simp+

theorem setup_masks_regions_witness:
  "ingested (setup_masks (Some (RGB example_mask_image)) 4 (new_processor 512 512 1 False False) example_globals)
     = Some ([[[1, 0, 0], [1, 0, 0]], [[0, 0, 1], [0, 0, 0]]], Some [[0, 1, 0], [0, 1, 1]], True)"
proof -
  let ?p = "new_processor 512 512 1 False False"
  from setup_masks_regions [of 4 example_globals example_mask_image ?p]
  obtain cr act p' g' where
    cr: "deterministic_colours (max (4 + 1) MAXCOLREG) (COLREG example_globals) = Some cr"
    and act: "act = filter (\<lambda>c. \<exists>row \<in> set example_mask_image. \<exists>px \<in> set row. colour_match (cr ! c) px) [0 ..< nat 4]"
    and run: "setup_masks (Some (RGB example_mask_image)) 4 ?p example_globals = Inr (p', g')"
    and masks: "regmasks p' = map (\<lambda>c. map (map (\<lambda>px. if colour_match (cr ! c) px then 1 else 0)) example_mask_image) act"
    and base: "act \<noteq> [] \<longrightarrow> regbase p' = Some (map (map (\<lambda>px. if \<exists>c \<in> set act. colour_match (cr ! c) px then 0 else 1)) example_mask_image)"
    and fin: "active p'"
    by blast
  have "deterministic_colours (max (4 + 1) MAXCOLREG) (COLREG example_globals) = Some (map colour_at [0 ..< 359])"
    by (simp add: example_globals_def MAXCOLREG_def deterministic_colours_fresh)
  with cr have "cr = map colour_at [0 ..< 359]" by simp
  then have nth: "cr ! k = colour_at k" if "k < 359" for k
    using that by simp
  have c: "cr ! 0 = (128, 64, 64)" "cr ! 1 = (64, 128, 128)" "cr ! 2 = (96, 128, 64)" "cr ! 3 = (96, 64, 128)"
    using nth [of 0] nth [of 1] nth [of 2] nth [of 3] colour_at_first by simp_all
  have c1: "cr ! Suc 0 = (64, 128, 128)" using c(2) by simp
  have upt: "[0 ..< nat 4] = [0, 1, 2, 3]" by code_simp
  have a: "act = [1, 3]"
    unfolding act upt by (simp add: c c1 example_mask_image_def colour_match_def)
  have m: "regmasks p' = [[[1, 0, 0], [1, 0, 0]], [[0, 0, 1], [0, 0, 0]]]"
    unfolding masks a by (simp add: c c1 example_mask_image_def colour_match_def)
  have b: "regbase p' = Some [[0, 1, 0], [0, 1, 1]]"
    using base unfolding a by (simp add: c c1 example_mask_image_def colour_match_def)
  show ?thesis using run m b fin by (simp add: ingested_def)
qed

subsection \<open>Mask extraction for the unclaimed area\<close>

text \<open>What \<^verbatim>\<open>detect_mask\<close> computes for a negative region id.\<close>
lemma detect_mask_negative:
  "detect_mask None num mult g = Inr (None, g)"
  "detect_mask (Some (Dict None)) num mult g = Inr (None, g)"
  "num < 0 \<Longrightarrow> REGUSE g = [] \<Longrightarrow>
     detect_mask (Some (Array a)) num mult g = Inr (Some (map (map (\<lambda>px. mult)) a), g)"
  "num < 0 \<Longrightarrow> REGUSE g \<noteq> [] \<Longrightarrow>
     detect_mask (Some (Array a)) num mult g
       = Inr (Some (map (map (\<lambda>px. if differs_everywhere (map snd (REGUSE g)) px then mult else 0)) a), g)"
  by (simp_all add: detect_mask_def dict_values_def Let_def cong: if_cong)

text \<open>
  Claim C5 at a concrete canvas. The registry holds the colour of region 0 only, and the
  canvas has one pixel in the colour of region 2 and one white pixel. The pixel of region
  2 is not a colour of the registry, yet it shares the blue channel \<open>64\<close> with the colour
  of region 0, and line 268 gives it \<open>0\<close>, not the fill value \<open>255\<close>.
\<close>
theorem detect_mask_shared_channel:
  "deterministic_colours 3 None = Some [(128, 64, 64), (64, 128, 128), (96, 128, 64)]
   \<and> \<not> same_colour (96, 128, 64) (128, 64, 64)
   \<and> detect_mask (Some (Array [[(96, 128, 64), (255, 255, 255)]])) (- 1) 255
        (example_globals\<lparr>REGUSE := [(0, (128, 64, 64))]\<rparr>)
       = Inr (Some [[0, 255]], example_globals\<lparr>REGUSE := [(0, (128, 64, 64))]\<rparr>)"
  by code_simp

end
